theory Spec2Isabelle
  imports Complex_Main "HOL-Library.Word" "HOL-Library.Code_Target_Numeral"
begin

section \<open>Platform values: bytes, JS arithmetic, the default JSON encoding\<close>

text \<open>
  A byte of a \<open>Uint8Array\<close> or of a \<open>DataView\<close> is a JS number in \<open>0..255\<close>: a
  \<open>nat\<close>, reduced modulo 256 where a store truncates. The header is an \<open>Int32Array\<close>:
  its elements are \<open>32 word\<close>, read signed (\<open>sint\<close>) by \<open>Atomics.load\<close> and written
  by \<open>Atomics.store\<close> through \<open>word_of_int\<close>. Sizes, indices and offsets held in JS
  variables are integer-valued numbers (\<open>int\<close>); the one non-integer that the channel
  code can produce is \<open>NaN\<close>, from the remainder by a zero \<open>bufferSize\<close>, and it is
  \<open>None\<close> of \<open>int option\<close>.
\<close>

type_synonym jsnum = "int option"

definition js_rem :: "int \<Rightarrow> int \<Rightarrow> jsnum" where
  \<comment> \<open>\<open>a % b\<close>: the sign of the dividend, \<open>NaN\<close> for a zero divisor\<close>
  "js_rem a b = (if b = 0 then None else Some (sgn a * (\<bar>a\<bar> mod \<bar>b\<bar>)))"

definition js_mul :: "jsnum \<Rightarrow> int \<Rightarrow> jsnum" where
  "js_mul x b = map_option (\<lambda>a. a * b) x"

definition js_add :: "jsnum \<Rightarrow> int \<Rightarrow> jsnum" where
  "js_add x b = map_option (\<lambda>a. a + b) x"

definition js_lt :: "jsnum \<Rightarrow> int \<Rightarrow> bool" where
  \<comment> \<open>\<open>x < b\<close>: false when \<open>x\<close> is \<open>NaN\<close>\<close>
  "js_lt x b = (case x of None \<Rightarrow> False | Some a \<Rightarrow> a < b)"

definition js_ge :: "jsnum \<Rightarrow> int \<Rightarrow> bool" where
  \<comment> \<open>\<open>x >= b\<close>: false when \<open>x\<close> is \<open>NaN\<close>\<close>
  "js_ge x b = (case x of None \<Rightarrow> False | Some a \<Rightarrow> b \<le> a)"

text \<open>
  The values that travel in the scenarios: integer numbers and strings, and a \<open>BigInt\<close>,
  on which \<open>JSON.stringify\<close> throws. \<open>JSON_stringify\<close> is exact for integers that print
  without an exponent and for strings of printable ASCII. \<open>JSON_parse\<close> skips the JSON
  whitespace (space, tab, line feed, carriage return) around the value, as \<open>JSON.parse\<close>
  does; it is exact on the texts that are, between that whitespace, a number without
  fraction or exponent or a string whose only escapes are those of the quote and the
  backslash, and on the texts that are no JSON at all, such as a number followed by a
  control character that is not whitespace. Other JSON texts are outside the fragment.
\<close>

datatype jsvalue = JNumber int | JString string | JBigInt int

fun digits :: "nat \<Rightarrow> string" where
  "digits n = (if n < 10 then [''0123456789'' ! n]
               else digits (n div 10) @ [''0123456789'' ! (n mod 10)])"

declare digits.simps [simp del]

fun escape :: "string \<Rightarrow> string" where
  "escape [] = []"
| "escape (c # cs) =
     (if c = CHR 0x22 \<or> c = CHR 0x5C then CHR 0x5C # c # escape cs else c # escape cs)"

fun JSON_stringify :: "jsvalue \<Rightarrow> string option" where
  "JSON_stringify (JNumber n) =
     Some (if n < 0 then CHR ''-'' # digits (nat (- n)) else digits (nat n))"
| "JSON_stringify (JString s) = Some (CHR 0x22 # escape s @ [CHR 0x22])"
| "JSON_stringify (JBigInt n) = None"

fun unescape :: "string \<Rightarrow> string option" where
  \<comment> \<open>the characters after the opening quote, up to the closing quote that ends the text\<close>
  "unescape [] = None"
| "unescape [c] = (if c = CHR 0x22 then Some [] else None)"
| "unescape (c # d # cs) =
     (if c = CHR 0x22 then None
      else if c = CHR 0x5C then
        (if d = CHR 0x22 \<or> d = CHR 0x5C then map_option ((#) d) (unescape cs) else None)
      else if (of_char c :: nat) < 32 then None
      else map_option ((#) c) (unescape (d # cs)))"

definition is_digit :: "char \<Rightarrow> bool" where
  "is_digit c = (48 \<le> (of_char c :: nat) \<and> (of_char c :: nat) \<le> 57)"

definition number_of_digits :: "string \<Rightarrow> nat" where
  "number_of_digits cs = foldl (\<lambda>acc c. 10 * acc + (of_char c - 48)) 0 cs"

definition parse_nat :: "string \<Rightarrow> nat option" where
  "parse_nat cs =
     (if cs = [] \<or> \<not> list_all is_digit cs \<or> (hd cs = CHR ''0'' \<and> tl cs \<noteq> []) then None
      else Some (number_of_digits cs))"

definition is_whitespace :: "char \<Rightarrow> bool" where
  "is_whitespace c = (c = CHR 0x20 \<or> c = CHR 0x09 \<or> c = CHR 0x0A \<or> c = CHR 0x0D)"

definition trim :: "string \<Rightarrow> string" where
  "trim cs = rev (dropWhile is_whitespace (rev (dropWhile is_whitespace cs)))"

fun parse_value :: "string \<Rightarrow> jsvalue option" where
  "parse_value [] = None"
| "parse_value (c # cs) =
     (if c = CHR 0x22 then map_option JString (unescape cs)
      else if c = CHR ''-'' then map_option (\<lambda>n. JNumber (- int n)) (parse_nat cs)
      else map_option (\<lambda>n. JNumber (int n)) (parse_nat (c # cs)))"

definition JSON_parse :: "string \<Rightarrow> jsvalue option" where
  "JSON_parse text = parse_value (trim text)"

definition TextEncoder_encode :: "string \<Rightarrow> nat list" where
  "TextEncoder_encode str = map of_char str"

definition TextDecoder_decode :: "nat list \<Rightarrow> string" where
  "TextDecoder_decode buffer = map char_of buffer"

text \<open>The default serializer and deserializer of the channel constructor.\<close>

definition default_serializer :: "jsvalue \<Rightarrow> nat list option" where
  "default_serializer v = map_option TextEncoder_encode (JSON_stringify v)"

definition default_deserializer :: "nat list \<Rightarrow> jsvalue option" where
  "default_deserializer buffer = JSON_parse (TextDecoder_decode buffer)"

section \<open>The size helper\<close>

text \<open>
  \<open>calculateElementSize\<close> of \<open>with-safety.ts\<close>. Its argument \<open>encode_json\<close> is
  \<open>JSON.stringify\<close> followed by \<open>TextEncoder.encode\<close>, \<open>None\<close> when the
  serialisation throws. The product \<open>actualSize * 1.5\<close> is a multiple of one half and
  exact in double precision for every length a JS string can have, so it is the real
  product.
\<close>

definition calculateElementSize :: "('a \<Rightarrow> nat list option) \<Rightarrow> 'a \<Rightarrow> int" where
  "calculateElementSize encode_json data_v =
     (case encode_json data_v of
        None \<Rightarrow> 1024
      | Some encoded \<Rightarrow>
          (let actualSize = int (length encoded) + 4;
               withSafety = \<lceil>real_of_int actualSize * 1.5\<rceil>
           in max 256 withSafety))"

section \<open>The shared-memory channel\<close>

text \<open>
  The errors a channel operation can reject with: the two \<open>Error\<close>s the channel
  creates itself (\<open>Cannot send to closed channel\<close>, the spec's \<open>Closed\<close>, and
  \<open>Channel is closed and empty\<close>, the spec's \<open>ClosedAndEmpty\<close>), the \<open>RangeError\<close> of
  an allocation or of a \<open>DataView\<close> access out of bounds, and whatever the serializer
  or the deserializer throws.
\<close>

datatype error =
    CannotSendToClosedChannel
  | ChannelIsClosedAndEmpty
  | RangeError
  | SerializerError
  | DeserializerError

text \<open>The seven \<open>Int32Array\<close> words of the header, in index order.\<close>

record ChannelHeader =
  h_bufferSize :: "32 word"
  writeIndex :: "32 word"
  readIndex :: "32 word"
  closed_w :: "32 word"
  h_elementSize :: "32 word"
  waitingSenders :: "32 word"
  waitingReceivers :: "32 word"

definition header_words :: "ChannelHeader \<Rightarrow> 32 word list" where
  "header_words h = [h_bufferSize h, writeIndex h, readIndex h, closed_w h,
                     h_elementSize h, waitingSenders h, waitingReceivers h]"

definition HEADER_SIZE :: int where
  "HEADER_SIZE = 7 * 4"

text \<open>
  A channel object: the header view, the \<open>DataView\<close> over the bytes that follow the
  header, and the object's own fields.
\<close>

record 'a SharedChannel =
  header :: ChannelHeader
  dataView :: "nat list"
  bufferSize :: int
  elementSize :: int
  serializer :: "'a \<Rightarrow> nat list option"
  deserializer :: "nat list \<Rightarrow> 'a option"

definition byteLength :: "'a SharedChannel \<Rightarrow> int" where
  \<comment> \<open>the size of the shared region: header and slots\<close>
  "byteLength ch = HEADER_SIZE + int (length (dataView ch))"

text \<open>
  The constructor. \<open>max_byte_length\<close> is the platform's limit on the size of a
  \<open>SharedArrayBuffer\<close>: \<open>new SharedArrayBuffer(totalSize)\<close> throws a \<open>RangeError\<close> for a
  negative size and for one above the limit, and \<open>new Int32Array(sharedBuffer, 0, 7)\<close>
  throws one when the buffer is shorter than the header. The buffer is zero-filled.
\<close>

definition SharedChannel_constructor ::
  "int \<Rightarrow> int \<Rightarrow> int \<Rightarrow> ('a \<Rightarrow> nat list option) \<Rightarrow> (nat list \<Rightarrow> 'a option)
     \<Rightarrow> error + 'a SharedChannel" where
  "SharedChannel_constructor max_byte_length bufferSize_v elementSize_v ser deser =
     (let totalSize = HEADER_SIZE + bufferSize_v * elementSize_v
      in if totalSize < 0 \<or> max_byte_length < totalSize then Inl RangeError
         else if totalSize < 7 * 4 then Inl RangeError
         else Inr \<lparr> header = \<lparr> h_bufferSize = word_of_int bufferSize_v,
                                 writeIndex = 0,
                                 readIndex = 0,
                                 closed_w = 0,
                                 h_elementSize = word_of_int elementSize_v,
                                 waitingSenders = 0,
                                 waitingReceivers = 0 \<rparr>,
                    dataView = replicate (nat (totalSize - HEADER_SIZE)) 0,
                    bufferSize = bufferSize_v,
                    elementSize = elementSize_v,
                    serializer = ser,
                    deserializer = deser \<rparr>)"

subsection \<open>DataView accesses\<close>

definition ToIndex :: "jsnum \<Rightarrow> error + nat" where
  \<comment> \<open>\<open>NaN\<close> converts to 0, a negative offset is a \<open>RangeError\<close>\<close>
  "ToIndex x = (case x of None \<Rightarrow> Inr 0
                | Some i \<Rightarrow> if i < 0 then Inl RangeError else Inr (nat i))"

definition getUint8 :: "nat list \<Rightarrow> jsnum \<Rightarrow> error + nat" where
  "getUint8 view byteOffset =
     (case ToIndex byteOffset of
        Inl e \<Rightarrow> Inl e
      | Inr i \<Rightarrow> if length view < i + 1 then Inl RangeError else Inr (view ! i))"

definition setUint8 :: "nat list \<Rightarrow> jsnum \<Rightarrow> nat \<Rightarrow> error + nat list" where
  "setUint8 view byteOffset v =
     (case ToIndex byteOffset of
        Inl e \<Rightarrow> Inl e
      | Inr i \<Rightarrow> if length view < i + 1 then Inl RangeError
                 else Inr (view[i := v mod 256]))"

definition getUint32 :: "nat list \<Rightarrow> jsnum \<Rightarrow> error + nat" where
  \<comment> \<open>little-endian\<close>
  "getUint32 view byteOffset =
     (case ToIndex byteOffset of
        Inl e \<Rightarrow> Inl e
      | Inr i \<Rightarrow> if length view < i + 4 then Inl RangeError
                 else Inr (view ! i + 256 * (view ! (i + 1)) + 65536 * (view ! (i + 2))
                           + 16777216 * (view ! (i + 3))))"

definition setUint32 :: "nat list \<Rightarrow> jsnum \<Rightarrow> nat \<Rightarrow> error + nat list" where
  \<comment> \<open>little-endian; the value is reduced modulo \<open>2 ^ 32\<close>\<close>
  "setUint32 view byteOffset v =
     (case ToIndex byteOffset of
        Inl e \<Rightarrow> Inl e
      | Inr i \<Rightarrow> if length view < i + 4 then Inl RangeError
                 else Inr (view[i := v mod 256,
                                i + 1 := v div 256 mod 256,
                                i + 2 := v div 65536 mod 256,
                                i + 3 := v div 16777216 mod 256]))"

text \<open>
  The byte loops of \<open>send\<close> and \<open>receive\<close>. A \<open>setUint8\<close> out of bounds throws in
  the middle of the loop: the bytes written before it stay written, so the loop
  returns the view it reached together with the error.
\<close>

fun write_payload :: "nat list \<Rightarrow> jsnum \<Rightarrow> int \<Rightarrow> nat list \<Rightarrow> error option \<times> nat list" where
  "write_payload view offset i [] = (None, view)"
| "write_payload view offset i (b # bs) =
     (case setUint8 view (js_add offset (4 + i)) b of
        Inl e \<Rightarrow> (Some e, view)
      | Inr view' \<Rightarrow> write_payload view' offset (i + 1) bs)"

fun read_payload :: "nat list \<Rightarrow> jsnum \<Rightarrow> int \<Rightarrow> nat \<Rightarrow> error + nat list" where
  "read_payload view offset i 0 = Inr []"
| "read_payload view offset i (Suc n) =
     (case getUint8 view (js_add offset (4 + i)) of
        Inl e \<Rightarrow> Inl e
      | Inr b \<Rightarrow> (case read_payload view offset (i + 1) n of
                    Inl e \<Rightarrow> Inl e
                  | Inr bs \<Rightarrow> Inr (b # bs)))"

subsection \<open>send and receive\<close>

text \<open>
  The promise a \<open>send\<close> or a \<open>receive\<close> returns is fulfilled, rejected or pending.
  A pending operation is parked in \<open>waitForSpace\<close> or \<open>waitForData\<close>: either its
  \<open>check\<close> found nothing and is scheduled again (\<open>Polling\<close>), or \<open>check\<close> resolved
  the wait and the \<open>then\<close> callback (decrement the waiter count, retry) is queued
  (\<open>Woken\<close>). Each function below is one run-to-completion block of the event loop.
\<close>

datatype 'a promise = Polling | Woken | Fulfilled 'a | Rejected error

definition currentSize :: "'a SharedChannel \<Rightarrow> jsnum" where
  "currentSize ch =
     js_rem (sint (writeIndex (header ch)) - sint (readIndex (header ch)) + bufferSize ch)
            (bufferSize ch)"

definition waitForSpace :: "'a SharedChannel \<Rightarrow> unit promise" where
  \<comment> \<open>one run of \<open>check\<close>\<close>
  "waitForSpace ch =
     (if js_lt (currentSize ch) (bufferSize ch) \<or> sint (closed_w (header ch)) = 1
      then Woken else Polling)"

definition tryWrite :: "'a SharedChannel \<Rightarrow> 'a \<Rightarrow> unit promise \<times> 'a SharedChannel" where
  "tryWrite ch data_v =
     (let writeIndex_v = sint (writeIndex (header ch))
      in if bufferSize ch = 0 \<or> js_ge (currentSize ch) (bufferSize ch) then
           (let ch' = ch\<lparr>header := (header ch)\<lparr>waitingSenders := waitingSenders (header ch) + 1\<rparr>\<rparr>
            in (waitForSpace ch', ch'))
         else
           (case serializer ch data_v of
              None \<Rightarrow> (Rejected SerializerError, ch)
            | Some serialized \<Rightarrow>
                (let offset = js_mul (js_rem writeIndex_v (bufferSize ch)) (elementSize ch)
                 in case setUint32 (dataView ch) offset (length serialized mod 2 ^ 32) of
                      Inl e \<Rightarrow> (Rejected e, ch)
                    | Inr view \<Rightarrow>
                        (case write_payload view offset 0 serialized of
                           (Some e, view') \<Rightarrow> (Rejected e, ch\<lparr>dataView := view'\<rparr>)
                         | (None, view') \<Rightarrow>
                             (Fulfilled (),
                              ch\<lparr>dataView := view',
                                 header := (header ch)\<lparr>writeIndex :=
                                              word_of_int (writeIndex_v + 1)\<rparr>\<rparr>)))))"

definition send :: "'a SharedChannel \<Rightarrow> 'a \<Rightarrow> unit promise \<times> 'a SharedChannel" where
  "send ch data_v =
     (if sint (closed_w (header ch)) = 1 then (Rejected CannotSendToClosedChannel, ch)
      else tryWrite ch data_v)"

definition send_resume ::
  "unit promise \<Rightarrow> 'a SharedChannel \<Rightarrow> 'a \<Rightarrow> unit promise \<times> 'a SharedChannel" where
  \<comment> \<open>the next block of a \<open>send\<close> that is pending: \<open>check\<close> again, or the \<open>then\<close> callback\<close>
  "send_resume p ch data_v =
     (case p of
        Polling \<Rightarrow> (waitForSpace ch, ch)
      | Woken \<Rightarrow>
          tryWrite (ch\<lparr>header := (header ch)\<lparr>waitingSenders := waitingSenders (header ch) - 1\<rparr>\<rparr>)
                   data_v
      | _ \<Rightarrow> (p, ch))"

definition waitForData :: "'a SharedChannel \<Rightarrow> 'a promise" where
  "waitForData ch =
     (if sint (writeIndex (header ch)) \<noteq> sint (readIndex (header ch))
         \<or> sint (closed_w (header ch)) = 1
      then Woken else Polling)"

definition tryRead :: "'a SharedChannel \<Rightarrow> 'a promise \<times> 'a SharedChannel" where
  "tryRead ch =
     (let writeIndex_v = sint (writeIndex (header ch));
          readIndex_v = sint (readIndex (header ch))
      in if writeIndex_v = readIndex_v then
           (if sint (closed_w (header ch)) = 1 then (Rejected ChannelIsClosedAndEmpty, ch)
            else
              (let ch' = ch\<lparr>header := (header ch)\<lparr>waitingReceivers :=
                                          waitingReceivers (header ch) + 1\<rparr>\<rparr>
               in (waitForData ch', ch')))
         else
           (let offset = js_mul (js_rem readIndex_v (bufferSize ch)) (elementSize ch)
            in case getUint32 (dataView ch) offset of
                 Inl e \<Rightarrow> (Rejected e, ch)
               | Inr dataLength \<Rightarrow>
                   (case read_payload (dataView ch) offset 0 dataLength of
                      Inl e \<Rightarrow> (Rejected e, ch)
                    | Inr dataBuffer \<Rightarrow>
                        (case deserializer ch dataBuffer of
                           None \<Rightarrow> (Rejected DeserializerError, ch)
                         | Some data_v \<Rightarrow>
                             (Fulfilled data_v,
                              ch\<lparr>header := (header ch)\<lparr>readIndex :=
                                           word_of_int (readIndex_v + 1)\<rparr>\<rparr>)))))"

definition receive :: "'a SharedChannel \<Rightarrow> 'a promise \<times> 'a SharedChannel" where
  "receive ch =
     (if sint (closed_w (header ch)) = 1
         \<and> sint (writeIndex (header ch)) = sint (readIndex (header ch))
      then (Rejected ChannelIsClosedAndEmpty, ch)
      else tryRead ch)"

definition receive_resume :: "'a promise \<Rightarrow> 'a SharedChannel \<Rightarrow> 'a promise \<times> 'a SharedChannel" where
  "receive_resume p ch =
     (case p of
        Polling \<Rightarrow> (waitForData ch, ch)
      | Woken \<Rightarrow>
          tryRead (ch\<lparr>header := (header ch)\<lparr>waitingReceivers :=
                                     waitingReceivers (header ch) - 1\<rparr>\<rparr>)
      | _ \<Rightarrow> (p, ch))"

definition close :: "'a SharedChannel \<Rightarrow> 'a SharedChannel" where
  "close ch = ch\<lparr>header := (header ch)\<lparr>closed_w := 1\<rparr>\<rparr>"



subsection \<open>Awaiting a send\<close>

text \<open>
  The promise of a \<open>send\<close> after \<open>n\<close> further blocks of its own, with nothing else
  touching the channel in between.
\<close>

fun send_await ::
  "nat \<Rightarrow> unit promise \<Rightarrow> 'a SharedChannel \<Rightarrow> 'a \<Rightarrow> unit promise \<times> 'a SharedChannel" where
  "send_await 0 p ch data_v = (p, ch)"
| "send_await (Suc n) p ch data_v =
     (case send_resume p ch data_v of (p', ch') \<Rightarrow> send_await n p' ch' data_v)"

subsection \<open>A sender and a receiver on one channel\<close>

text \<open>
  One pending \<open>send\<close> and one pending \<open>receive\<close> share the channel; a schedule says
  whose block runs next.
\<close>

datatype agent = Sender | Receiver

type_synonym 'a system = "unit promise \<times> 'a promise \<times> 'a SharedChannel"

fun step :: "'a \<Rightarrow> agent \<Rightarrow> 'a system \<Rightarrow> 'a system" where
  "step data_v Sender (ps, pr, ch) =
     (case send_resume ps ch data_v of (ps', ch') \<Rightarrow> (ps', pr, ch'))"
| "step data_v Receiver (ps, pr, ch) =
     (case receive_resume pr ch of (pr', ch') \<Rightarrow> (ps, pr', ch'))"

fun run :: "'a \<Rightarrow> agent list \<Rightarrow> 'a system \<Rightarrow> 'a system" where
  "run data_v [] s = s"
| "run data_v (a # as) s = run data_v as (step data_v a s)"

subsection \<open>Async iteration\<close>










subsection \<open>The slot layout of the specification\<close>

text \<open>
  The data model of the specification, in its words: slot \<open>i\<close> lives at offset
  \<open>(i mod capacity) * slot_size\<close> of the slot storage and contains a 32-bit
  little-endian length prefix followed by that many bytes of payload.
\<close>

definition slot_offset :: "'a SharedChannel \<Rightarrow> int \<Rightarrow> nat" where
  "slot_offset ch i = nat ((i mod bufferSize ch) * elementSize ch)"

definition slot_length :: "'a SharedChannel \<Rightarrow> int \<Rightarrow> nat" where
  "slot_length ch i =
     (let off = slot_offset ch i; view = dataView ch
      in view ! off + 256 * (view ! (off + 1)) + 65536 * (view ! (off + 2))
         + 16777216 * (view ! (off + 3)))"

definition slot_payload :: "'a SharedChannel \<Rightarrow> int \<Rightarrow> nat list" where
  "slot_payload ch i = take (slot_length ch i) (drop (slot_offset ch i + 4) (dataView ch))"

definition slot_readable :: "'a SharedChannel \<Rightarrow> bool" where
  \<comment> \<open>a slot is committed at \<open>read_index\<close>, and it lies inside the slot storage\<close>
  "slot_readable ch =
     (writeIndex (header ch) \<noteq> readIndex (header ch)
      \<and> 0 < bufferSize ch \<and> 0 \<le> elementSize ch \<and> 0 \<le> sint (readIndex (header ch))
      \<and> slot_offset ch (sint (readIndex (header ch))) + 4
           + slot_length ch (sint (readIndex (header ch))) \<le> length (dataView ch))"

definition write_offset :: "'a SharedChannel \<Rightarrow> int" where
  \<comment> \<open>\<open>(writeIndex % bufferSize) * elementSize\<close> for a capacity other than 0: the
      remainder has the sign of \<open>writeIndex\<close>, negative once it has wrapped\<close>
  "write_offset ch =
     sgn (sint (writeIndex (header ch)))
       * (\<bar>sint (writeIndex (header ch))\<bar> mod \<bar>bufferSize ch\<bar>) * elementSize ch"

section \<open>WaitGroup\<close>

text \<open>
  The handles added to a group are promises, named by numbers. What happens to them
  comes from outside, as the list of their settlements in the order the group observes
  them. Every settlement of a handle first runs the \<open>finally\<close> callbacks that \<open>add\<close>
  attached to it, one \<open>count--\<close> for each time it was added, whether or not a \<open>wait\<close>
  is still pending; then comes the reaction of \<open>Promise.all\<close>, which fulfils with the
  values in the order of its argument once every handle is resolved, and rejects at the
  first rejection. No handle is added while a \<open>wait\<close> is pending.
\<close>

datatype 'a settlement = Resolve nat 'a | Reject nat string

fun handle_of :: "'a settlement \<Rightarrow> nat" where
  "handle_of (Resolve h v) = h"
| "handle_of (Reject h e) = h"

record WaitGroup =
  count :: int
  promises :: "nat list"

definition WaitGroup_new :: WaitGroup where
  "WaitGroup_new = \<lparr> count = 0, promises = [] \<rparr>"

definition add :: "WaitGroup \<Rightarrow> nat \<Rightarrow> WaitGroup" where
  "add wg goroutinePromise =
     wg\<lparr>count := count wg + 1, promises := promises wg @ [goroutinePromise]\<rparr>"

definition getCount :: "WaitGroup \<Rightarrow> int" where
  "getCount wg = count wg"

datatype 'a wait_result = Waiting | Returned "'a list" | Failed string

definition all_resolved :: "nat list \<Rightarrow> (nat \<rightharpoonup> 'a) \<Rightarrow> bool" where
  "all_resolved hs vals = list_all (\<lambda>h. vals h \<noteq> None) hs"

definition finally_callback :: "nat list \<Rightarrow> WaitGroup \<Rightarrow> nat \<Rightarrow> WaitGroup" where
  \<comment> \<open>the callbacks attached to handle \<open>h\<close>, among the handles \<open>hs\<close> that were added\<close>
  "finally_callback hs wg h = wg\<lparr>count := count wg - int (count_list hs h)\<rparr>"

fun settle_rest :: "nat list \<Rightarrow> WaitGroup \<Rightarrow> 'a settlement list \<Rightarrow> WaitGroup" where
  \<comment> \<open>the settlements that come after \<open>wait\<close> has returned or failed\<close>
  "settle_rest hs wg [] = wg"
| "settle_rest hs wg (ev # evs) = settle_rest hs (finally_callback hs wg (handle_of ev)) evs"

fun await_all ::
  "nat list \<Rightarrow> (nat \<rightharpoonup> 'a) \<Rightarrow> WaitGroup \<Rightarrow> 'a settlement list \<Rightarrow> 'a wait_result \<times> WaitGroup" where
  "await_all hs vals wg [] =
     (if all_resolved hs vals
      then (Returned (map (the \<circ> vals) hs), wg\<lparr>count := 0, promises := []\<rparr>)
      else (Waiting, wg))"
| "await_all hs vals wg (Resolve h v # evs) =
     (if all_resolved hs vals
      then (Returned (map (the \<circ> vals) hs),
            settle_rest hs (wg\<lparr>count := 0, promises := []\<rparr>) (Resolve h v # evs))
      else if h \<in> set hs
        then await_all hs (vals(h \<mapsto> v)) (finally_callback hs wg h) evs
        else await_all hs vals wg evs)"
| "await_all hs vals wg (Reject h e # evs) =
     (if all_resolved hs vals
      then (Returned (map (the \<circ> vals) hs),
            settle_rest hs (wg\<lparr>count := 0, promises := []\<rparr>) (Reject h e # evs))
      else if h \<in> set hs
        then (Failed e, settle_rest hs (finally_callback hs wg h) evs)
        else await_all hs vals wg evs)"

definition wait :: "WaitGroup \<Rightarrow> 'a settlement list \<Rightarrow> 'a wait_result \<times> WaitGroup" where
  "wait wg evs = await_all (promises wg) Map.empty wg evs"

fun first_rejection :: "nat list \<Rightarrow> 'a settlement list \<Rightarrow> string option" where
  \<comment> \<open>the reason of the first rejection of a handle of the group\<close>
  "first_rejection hs [] = None"
| "first_rejection hs (Resolve h v # evs) = first_rejection hs evs"
| "first_rejection hs (Reject h e # evs) =
     (if h \<in> set hs then Some e else first_rejection hs evs)"

section \<open>The worker pool\<close>

text \<open>
  Workers are named by the number of their creation. A queued task
  \<open>{ message, resolve, reject }\<close> is named by its message id, and \<open>handles\<close> records the
  completion handles that have been settled, with what: a task whose id is not in its
  domain has a pending promise. \<open>messageHandlers\<close> are the listeners that
  \<open>processQueue\<close> registers on a worker for a dispatched task. The registry of shared
  channels plays no part in dispatch or teardown and is left out.
\<close>

datatype reply = Result_reply string | Error_reply string

record WorkerPool =
  workers :: "nat list"
  availableWorkers :: "nat list"
  taskQueue :: "string list"
  maxWorkers :: int
  messageHandlers :: "(nat \<times> string) list"
  handles :: "string \<rightharpoonup> reply"
  created :: nat

definition createWorker :: "WorkerPool \<Rightarrow> WorkerPool" where
  "createWorker p =
     p\<lparr>workers := workers p @ [created p],
       availableWorkers := availableWorkers p @ [created p],
       created := created p + 1\<rparr>"

definition WorkerPool_constructor :: "int \<Rightarrow> WorkerPool" where
  "WorkerPool_constructor maxWorkers_v =
     (createWorker ^^ nat maxWorkers_v)
       \<lparr> workers = [], availableWorkers = [], taskQueue = [], maxWorkers = maxWorkers_v,
         messageHandlers = [], handles = Map.empty, created = 0 \<rparr>"

definition removeWorker :: "WorkerPool \<Rightarrow> nat \<Rightarrow> WorkerPool" where
  "removeWorker p worker =
     (let p' = p\<lparr>workers := remove1 worker (workers p),
                 availableWorkers := remove1 worker (availableWorkers p)\<rparr>
      in if int (length (workers p')) < maxWorkers p' \<and> 0 < length (taskQueue p')
         then createWorker p' else p')"

fun dispatch ::
  "string list \<Rightarrow> nat list \<Rightarrow> (nat \<times> string) list
     \<Rightarrow> string list \<times> nat list \<times> (nat \<times> string) list" where
  \<comment> \<open>the \<open>while\<close> loop of \<open>processQueue\<close>\<close>
  "dispatch (task # queue) (worker # available) hs =
     dispatch queue available (hs @ [(worker, task)])"
| "dispatch queue available hs = (queue, available, hs)"

definition processQueue :: "WorkerPool \<Rightarrow> WorkerPool" where
  "processQueue p =
     (case dispatch (taskQueue p) (availableWorkers p) (messageHandlers p) of
        (queue, available, hs) \<Rightarrow>
          (let p' = p\<lparr>taskQueue := queue, availableWorkers := available,
                      messageHandlers := hs\<rparr>
           in if 0 < length (taskQueue p') \<and> int (length (workers p')) < maxWorkers p'
              then createWorker p' else p'))"

definition execute :: "WorkerPool \<Rightarrow> string \<Rightarrow> WorkerPool" where
  "execute p message_id = processQueue (p\<lparr>taskQueue := taskQueue p @ [message_id]\<rparr>)"

definition on_message :: "WorkerPool \<Rightarrow> nat \<Rightarrow> string \<Rightarrow> reply \<Rightarrow> WorkerPool" where
  \<comment> \<open>a worker's reply: \<open>handleWorkerMessage\<close>, then the \<open>messageHandler\<close> of the task\<close>
  "on_message p worker message_id r =
     (let p1 = (if worker \<in> set (availableWorkers p) then p
                else p\<lparr>availableWorkers := availableWorkers p @ [worker]\<rparr>);
          p2 = processQueue p1
      in if (worker, message_id) \<in> set (messageHandlers p)
         then p2\<lparr>messageHandlers := remove1 (worker, message_id) (messageHandlers p2),
                 handles := (case handles p2 message_id of
                               None \<Rightarrow> (handles p2)(message_id \<mapsto> r)
                             | Some r' \<Rightarrow> handles p2)\<rparr>
         else p2)"

definition terminate :: "WorkerPool \<Rightarrow> nat list \<times> WorkerPool" where
  \<comment> \<open>the workers whose \<open>terminate()\<close> is called and awaited, and the pool\<close>
  "terminate p = (workers p, p)"

definition on_exit :: "WorkerPool \<Rightarrow> nat \<Rightarrow> WorkerPool" where
  \<comment> \<open>the \<open>exit\<close> listener of a worker\<close>
  "on_exit p worker = removeWorker p worker"

definition teardown :: "WorkerPool \<Rightarrow> WorkerPool" where
  \<comment> \<open>\<open>terminate()\<close> together with the \<open>exit\<close> events of the workers it terminates\<close>
  "teardown p = (case terminate p of (ws, p') \<Rightarrow> foldl on_exit p' ws)"

section \<open>Scenarios\<close>

text \<open>
  \<open>makeChan\<close> of \<open>goroutine.ts\<close>: a channel of JSON values with the default encoding,
  on a platform that allocates shared buffers of up to \<open>2 ^ 32\<close> bytes.
\<close>

definition makeChan :: "int \<Rightarrow> int \<Rightarrow> error + jsvalue SharedChannel" where
  "makeChan bufferSize_v elementSize_v =
     SharedChannel_constructor (2 ^ 32) bufferSize_v elementSize_v
       default_serializer default_deserializer"

text \<open>A channel of capacity 1 with slots of 8 bytes: send \<open>'a'\<close>, then send \<open>'b'\<close>.\<close>

definition latch_sent_a :: "unit promise \<times> jsvalue SharedChannel" where
  "latch_sent_a = send (projr (makeChan 1 8)) (JString ''a'')"

definition latch_sent_b :: "unit promise \<times> jsvalue SharedChannel" where
  "latch_sent_b = send (snd latch_sent_a) (JString ''b'')"



text \<open>
  A channel of capacity 2 with slots of 8 bytes: send 12345, whose encoding has 5
  bytes, then send 7, then close.
\<close>

definition spill_first :: "unit promise \<times> jsvalue SharedChannel" where
  "spill_first = send (projr (makeChan 2 8)) (JNumber 12345)"



text \<open>
  A channel of capacity 0: send 42, which parks; after it, in one scenario a receive,
  in the other a close.
\<close>

definition rendezvous_send :: "unit promise \<times> jsvalue SharedChannel" where
  "rendezvous_send = send (projr (makeChan 0 8)) (JNumber 42)"

definition rendezvous_receive :: "jsvalue promise \<times> jsvalue SharedChannel" where
  "rendezvous_receive = receive (snd rendezvous_send)"

definition rendezvous_closed :: "jsvalue SharedChannel" where
  "rendezvous_closed = close (snd rendezvous_send)"






text \<open>A pool of one worker: \<open>t1\<close> is dispatched to it, \<open>t2\<close> waits in the queue.\<close>

definition pool_busy :: WorkerPool where
  "pool_busy = execute (execute (WorkerPool_constructor 1) ''t1'') ''t2''"

section \<open>Properties of the size helper\<close>

lemma ceiling_three_halves: "\<lceil>real_of_int n * 1.5\<rceil> = (3 * n + 1) div 2"
  by linarith

lemma digits_eval:
  "n < 10 \<Longrightarrow> digits n = [''0123456789'' ! n]"
  "10 \<le> n \<Longrightarrow> digits n = digits (n div 10) @ [''0123456789'' ! (n mod 10)]"
  by (simp_all add: digits.simps [of n])

text \<open>
  Claim C10. When the serialisation of the value succeeds with an encoding of \<open>L\<close> bytes,
  \<open>calculateElementSize\<close> returns \<open>max 256 (ceil (1.5 * (L + 4)))\<close>, which is at least
  256 and at least \<open>L + 4\<close>; when the serialisation throws it returns 1024. The result
  is a function of the argument alone.
\<close>

theorem calculateElementSize_value:
  "(encode_json data_v = Some encoded \<longrightarrow>
      calculateElementSize encode_json data_v
        = max 256 \<lceil>1.5 * (real (length encoded) + 4)\<rceil>
    \<and> 256 \<le> calculateElementSize encode_json data_v
    \<and> int (length encoded) + 4 \<le> calculateElementSize encode_json data_v)
  \<and> (encode_json data_v = None \<longrightarrow> calculateElementSize encode_json data_v = 1024)"
proof -
  have eq: "\<lceil>1.5 * (real (length encoded) + 4)\<rceil>
      = \<lceil>real_of_int (int (length encoded) + 4) * 1.5\<rceil>"
    by (simp add: mult.commute)
  have le: "int (length encoded) + 4 \<le> \<lceil>real_of_int (int (length encoded) + 4) * 1.5\<rceil>"
  proof -
    have "(0::int) \<le> int (length encoded)" by simp
    then show ?thesis unfolding ceiling_three_halves by arith
  qed
  show ?thesis
    unfolding eq using le by (auto simp: calculateElementSize_def Let_def)
qed

theorem calculateElementSize_value_witness:
  "default_serializer (JNumber 42) = Some [52, 50]
   \<and> calculateElementSize default_serializer (JNumber 42) = 256
   \<and> default_serializer (JBigInt 42) = None
   \<and> calculateElementSize default_serializer (JBigInt 42) = 1024"
proof -
  have s: "default_serializer (JNumber 42) = Some [52, 50]"
    by (simp add: default_serializer_def TextEncoder_encode_def digits_eval)
  have n: "default_serializer (JBigInt 42) = None"
    by (simp add: default_serializer_def)
  from calculateElementSize_value [of default_serializer "JNumber 42" "[52, 50]"] s
  have a: "calculateElementSize default_serializer (JNumber 42) = 256" by simp
  from calculateElementSize_value [of default_serializer "JBigInt 42" "[]"] n
  have b: "calculateElementSize default_serializer (JBigInt 42) = 1024" by simp
  from s n a b show ?thesis by simp
qed

section \<open>Properties of the channel\<close>

lemma setUint8_Some:
  "setUint8 view (Some k) b =
     (if k < 0 \<or> int (length view) \<le> k then Inl RangeError else Inr (view[nat k := b mod 256]))"
  by (auto simp: setUint8_def ToIndex_def)

lemma write_payload_fits:
  "0 \<le> off + (4 + i) \<Longrightarrow> off + (4 + i) + int (length bs) \<le> int (length view) \<Longrightarrow>
   \<exists>view'. write_payload view (Some off) i bs = (None, view') \<and> length view' = length view"
proof (induction bs arbitrary: view i)
  case Nil
  then show ?case by simp
next
  case (Cons b bs)
  let ?v = "view[nat (off + (4 + i)) := b mod 256]"
  have "0 \<le> off + (4 + (i + 1))" using Cons.prems by simp
  moreover have "off + (4 + (i + 1)) + int (length bs) \<le> int (length ?v)"
    using Cons.prems by simp
  ultimately obtain view' where
    "write_payload ?v (Some off) (i + 1) bs = (None, view')" "length view' = length ?v"
    using Cons.IH by blast
  moreover have "setUint8 view (Some (off + (4 + i))) b = Inr ?v"
    using Cons.prems by (simp add: setUint8_Some)
  ultimately show ?case by (simp add: js_add_def)
qed

lemma write_payload_overruns:
  "bs \<noteq> [] \<Longrightarrow> 0 \<le> off + (4 + i) \<Longrightarrow>
   int (length view) < off + (4 + i) + int (length bs) \<Longrightarrow>
   \<exists>view'. write_payload view (Some off) i bs = (Some RangeError, view')
           \<and> length view' = length view"
proof (induction bs arbitrary: view i)
  case Nil
  then show ?case by simp
next
  case (Cons b bs)
  show ?case
  proof (cases "int (length view) \<le> off + (4 + i)")
    case True
    then have "setUint8 view (Some (off + (4 + i))) b = Inl RangeError"
      by (simp add: setUint8_Some)
    then show ?thesis by (simp add: js_add_def)
  next
    case False
    let ?v = "view[nat (off + (4 + i)) := b mod 256]"
    have ne: "bs \<noteq> []" using Cons.prems False by auto
    have "0 \<le> off + (4 + (i + 1))" using Cons.prems by simp
    moreover have "int (length ?v) < off + (4 + (i + 1)) + int (length bs)"
      using Cons.prems by simp
    ultimately obtain view' where
      "write_payload ?v (Some off) (i + 1) bs = (Some RangeError, view')"
      "length view' = length ?v"
      using Cons.IH [OF ne] by blast
    moreover have "setUint8 view (Some (off + (4 + i))) b = Inr ?v"
      using Cons.prems False by (simp add: setUint8_Some)
    ultimately show ?thesis by (simp add: js_add_def)
  qed
qed

lemma js_rem_below: "0 < b \<Longrightarrow> \<not> js_ge (js_rem a b) b"
proof -
  assume b: "0 < b"
  have neg: "0 \<le> (- a) mod b" and pos: "a mod b < b" using b by simp_all
  have "sgn a * (\<bar>a\<bar> mod \<bar>b\<bar>) < b"
  proof (cases "a < 0")
    case True
    then have "sgn a * (\<bar>a\<bar> mod \<bar>b\<bar>) = - ((- a) mod b)"
      using b by (simp add: sgn_if)
    also have "\<dots> \<le> 0" using neg by linarith
    finally show ?thesis using b by linarith
  next
    case False
    then have "sgn a * (\<bar>a\<bar> mod \<bar>b\<bar>) \<le> a mod b"
      using b by (simp add: sgn_if)
    then show ?thesis using pos by linarith
  qed
  then show ?thesis using b by (simp add: js_ge_def js_rem_def)
qed

lemma never_full: "0 < bufferSize ch \<Longrightarrow> \<not> js_ge (currentSize ch) (bufferSize ch)"
  by (simp add: currentSize_def js_rem_below)

lemma write_offset_js:
  "bufferSize ch \<noteq> 0 \<Longrightarrow>
   js_mul (js_rem (sint (writeIndex (header ch))) (bufferSize ch)) (elementSize ch)
     = Some (write_offset ch)"
  by (simp add: js_rem_def js_mul_def write_offset_def)

lemma send_open:
  assumes "sint (closed_w (header ch)) \<noteq> 1" and "0 < bufferSize ch"
  shows "send ch data_v =
     (case serializer ch data_v of
        None \<Rightarrow> (Rejected SerializerError, ch)
      | Some serialized \<Rightarrow>
          (case setUint32 (dataView ch) (Some (write_offset ch)) (length serialized mod 2 ^ 32) of
             Inl e \<Rightarrow> (Rejected e, ch)
           | Inr view \<Rightarrow>
               (case write_payload view (Some (write_offset ch)) 0 serialized of
                  (Some e, view') \<Rightarrow> (Rejected e, ch\<lparr>dataView := view'\<rparr>)
                | (None, view') \<Rightarrow>
                    (Fulfilled (),
                     ch\<lparr>dataView := view',
                        header := (header ch)\<lparr>writeIndex :=
                           word_of_int (sint (writeIndex (header ch)) + 1)\<rparr>\<rparr>))))"
proof -
  have nf: "\<not> js_ge (currentSize ch) (bufferSize ch)" using assms(2) by (rule never_full)
  have offs: "js_mul (js_rem (sint (writeIndex (header ch))) (bufferSize ch)) (elementSize ch)
                = Some (write_offset ch)"
    using assms(2) by (intro write_offset_js) simp
  show ?thesis
    unfolding send_def tryWrite_def Let_def offs using assms nf by simp
qed

lemma setUint32_Some:
  "setUint32 view (Some off) v =
     (if off < 0 \<or> int (length view) < off + 4 then Inl RangeError
      else Inr (view[nat off := v mod 256, nat off + 1 := v div 256 mod 256,
                     nat off + 2 := v div 65536 mod 256,
                     nat off + 3 := v div 16777216 mod 256]))"
  by (auto simp: setUint32_def ToIndex_def)

text \<open>
  Claim C3, as amended. The channel has no check of the payload against the slot
  size. On an open channel of capacity at least 1: a send whose serialiser throws is
  rejected with that error and changes nothing. Otherwise, with the offset
  \<open>(write_index % capacity) * slot_size\<close> that the code computes (negative once
  \<open>write_index\<close> has wrapped) and a serialised form of \<open>L\<close> bytes, a send is rejected with
  a \<open>RangeError\<close>, the header and with it \<open>write_index\<close> left as they were, when the
  offset is negative or \<open>offset + 4 + L\<close> exceeds the bytes of the slot storage; every
  other send is fulfilled and advances \<open>write_index\<close> by one, also when \<open>L\<close> is more
  than the slot size minus 4.
\<close>

theorem send_commits_within_region:
  assumes "sint (closed_w (header ch)) \<noteq> 1" and "0 < bufferSize ch"
  shows "(serializer ch data_v = None \<longrightarrow> send ch data_v = (Rejected SerializerError, ch))
       \<and> (serializer ch data_v = Some serialized
            \<and> (write_offset ch < 0
                \<or> int (length (dataView ch)) < write_offset ch + 4 + int (length serialized))
          \<longrightarrow> fst (send ch data_v) = Rejected RangeError
              \<and> header (snd (send ch data_v)) = header ch)
       \<and> (serializer ch data_v = Some serialized
            \<and> 0 \<le> write_offset ch
            \<and> write_offset ch + 4 + int (length serialized) \<le> int (length (dataView ch))
          \<longrightarrow> fst (send ch data_v) = Fulfilled ()
              \<and> writeIndex (header (snd (send ch data_v))) = writeIndex (header ch) + 1)"
proof (intro conjI impI)
  assume "serializer ch data_v = None"
  then show "send ch data_v = (Rejected SerializerError, ch)"
    by (simp add: send_open [OF assms])
next
  define off where "off = write_offset ch"
  define view where "view = (dataView ch)[nat off := (length serialized mod 2 ^ 32) mod 256,
      nat off + 1 := (length serialized mod 2 ^ 32) div 256 mod 256,
      nat off + 2 := (length serialized mod 2 ^ 32) div 65536 mod 256,
      nat off + 3 := (length serialized mod 2 ^ 32) div 16777216 mod 256]"
  have lv: "length view = length (dataView ch)" by (simp add: view_def)
  assume h: "serializer ch data_v = Some serialized
       \<and> (write_offset ch < 0
           \<or> int (length (dataView ch)) < write_offset ch + 4 + int (length serialized))"
  then have ser: "serializer ch data_v = Some serialized"
    and bad: "off < 0 \<or> int (length (dataView ch)) < off + 4 + int (length serialized)"
    by (simp_all add: off_def)
  have "fst (send ch data_v) = Rejected RangeError \<and> header (snd (send ch data_v)) = header ch"
  proof (cases "off < 0 \<or> int (length (dataView ch)) < off + 4")
    case True
    then show ?thesis
      by (simp add: send_open [OF assms] ser setUint32_Some off_def [symmetric])
  next
    case False
    then have off0: "0 \<le> off" and big: "int (length view) < off + (4 + 0) + int (length serialized)"
      using bad lv by simp_all
    have "serialized \<noteq> []" using big False lv by auto
    then obtain view' where "write_payload view (Some off) 0 serialized = (Some RangeError, view')"
      using write_payload_overruns [of serialized off 0 view] off0 big by auto
    then show ?thesis
      using False
      by (simp add: send_open [OF assms] ser setUint32_Some off_def [symmetric] view_def)
  qed
  then show "fst (send ch data_v) = Rejected RangeError"
    and "header (snd (send ch data_v)) = header ch" by simp_all
next
  define off where "off = write_offset ch"
  define view where "view = (dataView ch)[nat off := (length serialized mod 2 ^ 32) mod 256,
      nat off + 1 := (length serialized mod 2 ^ 32) div 256 mod 256,
      nat off + 2 := (length serialized mod 2 ^ 32) div 65536 mod 256,
      nat off + 3 := (length serialized mod 2 ^ 32) div 16777216 mod 256]"
  have lv: "length view = length (dataView ch)" by (simp add: view_def)
  assume h: "serializer ch data_v = Some serialized
       \<and> 0 \<le> write_offset ch
       \<and> write_offset ch + 4 + int (length serialized) \<le> int (length (dataView ch))"
  then have ser: "serializer ch data_v = Some serialized" and off0: "0 \<le> off"
    and fits: "off + (4 + 0) + int (length serialized) \<le> int (length view)"
    using lv by (simp_all add: off_def)
  obtain view' where w: "write_payload view (Some off) 0 serialized = (None, view')"
    using write_payload_fits [of off 0 serialized view] off0 fits by auto
  have ok: "\<not> (off < 0 \<or> int (length (dataView ch)) < off + 4)" using off0 fits lv by simp
  have "fst (send ch data_v) = Fulfilled ()
        \<and> writeIndex (header (snd (send ch data_v))) = writeIndex (header ch) + 1"
    using w ok
    by (simp add: send_open [OF assms] ser setUint32_Some off_def [symmetric] view_def)
  then show "fst (send ch data_v) = Fulfilled ()"
    and "writeIndex (header (snd (send ch data_v))) = writeIndex (header ch) + 1"
    by simp_all
qed

lemma getUint8_Some:
  "getUint8 view (Some k) =
     (if k < 0 \<or> int (length view) \<le> k then Inl RangeError else Inr (view ! nat k))"
  by (auto simp: getUint8_def ToIndex_def)

lemma read_payload_within:
  "0 \<le> off + (4 + i) \<Longrightarrow> nat (off + (4 + i)) + n \<le> length view \<Longrightarrow>
   read_payload view (Some off) i n = Inr (take n (drop (nat (off + (4 + i))) view))"
proof (induction n arbitrary: i)
  case 0
  then show ?case by simp
next
  case (Suc n)
  let ?k = "nat (off + (4 + i))"
  have k: "?k < length view" using Suc.prems by simp
  have nxt: "drop (nat (off + (4 + (i + 1)))) view = drop (Suc ?k) view"
  proof -
    have "nat (off + (4 + (i + 1))) = Suc ?k" using Suc.prems by simp
    then show ?thesis by (simp only:)
  qed
  have "read_payload view (Some off) (i + 1) n
          = Inr (take n (drop (nat (off + (4 + (i + 1)))) view))"
    using Suc.prems by (intro Suc.IH) simp_all
  moreover have "getUint8 view (Some (off + (4 + i))) = Inr (view ! ?k)"
    using Suc.prems k by (simp add: getUint8_Some)
  moreover have "take (Suc n) (drop ?k view) = view ! ?k # take n (drop (Suc ?k) view)"
    using k by (simp add: Cons_nth_drop_Suc [symmetric])
  ultimately show ?case using nxt by (simp add: js_add_def)
qed










lemma slot_readable_waiting [simp]:
  "slot_readable (ch\<lparr>header := (header ch)\<lparr>waitingReceivers := n\<rparr>\<rparr>) = slot_readable ch"
  "slot_payload (ch\<lparr>header := (header ch)\<lparr>waitingReceivers := n\<rparr>\<rparr>) i = slot_payload ch i"
  by (simp_all add: slot_readable_def slot_payload_def slot_length_def slot_offset_def)



subsection \<open>The scenarios, evaluated\<close>

lemma replicate_8: "replicate 8 x = [x, x, x, x, x, x, x, x]"
  by (simp add: numeral_eq_Suc)

lemma replicate_16: "replicate 16 x = [x, x, x, x, x, x, x, x, x, x, x, x, x, x, x, x]"
  by (simp add: numeral_eq_Suc)

lemma replicate_24:
  "replicate 24 x = [x, x, x, x, x, x, x, x, x, x, x, x, x, x, x, x, x, x, x, x, x, x, x, x]"
  by (simp add: numeral_eq_Suc)

lemmas channel_eval =
  makeChan_def SharedChannel_constructor_def HEADER_SIZE_def send_def tryWrite_def currentSize_def
  js_rem_def js_ge_def js_lt_def js_mul_def js_add_def
  default_serializer_def TextEncoder_encode_def setUint32_def setUint8_def ToIndex_def Let_def
  receive_def tryRead_def getUint32_def getUint8_def waitForSpace_def waitForData_def close_def
  replicate_8 replicate_16 replicate_24 digits_eval read_payload_within
  default_deserializer_def TextDecoder_decode_def JSON_parse_def trim_def is_whitespace_def
  parse_nat_def is_digit_def number_of_digits_def char_of_def bit_iff_odd

lemma latch_sent_a_eq:
  "latch_sent_a =
     (Fulfilled (),
      \<lparr>header = \<lparr>h_bufferSize = 1, writeIndex = 1, readIndex = 0, closed_w = 0,
                 h_elementSize = 8, waitingSenders = 0, waitingReceivers = 0\<rparr>,
       dataView = [3, 0, 0, 0, 34, 97, 34, 0], bufferSize = 1, elementSize = 8,
       serializer = default_serializer, deserializer = default_deserializer\<rparr>)"
  by (simp add: latch_sent_a_def channel_eval)

lemma latch_sent_b_eq:
  "latch_sent_b =
     (Fulfilled (),
      \<lparr>header = \<lparr>h_bufferSize = 1, writeIndex = 2, readIndex = 0, closed_w = 0,
                 h_elementSize = 8, waitingSenders = 0, waitingReceivers = 0\<rparr>,
       dataView = [3, 0, 0, 0, 34, 98, 34, 0], bufferSize = 1, elementSize = 8,
       serializer = default_serializer, deserializer = default_deserializer\<rparr>)"
  by (simp add: latch_sent_b_def latch_sent_a_eq channel_eval)





lemma spill_first_eq:
  "spill_first =
     (Fulfilled (),
      \<lparr>header = \<lparr>h_bufferSize = 2, writeIndex = 1, readIndex = 0, closed_w = 0,
                 h_elementSize = 8, waitingSenders = 0, waitingReceivers = 0\<rparr>,
       dataView = [5, 0, 0, 0, 49, 50, 51, 52, 53, 0, 0, 0, 0, 0, 0, 0],
       bufferSize = 2, elementSize = 8,
       serializer = default_serializer, deserializer = default_deserializer\<rparr>)"
  by (simp add: spill_first_def channel_eval)




lemma rendezvous_send_eq:
  "rendezvous_send =
     (Polling,
      \<lparr>header = \<lparr>h_bufferSize = 0, writeIndex = 0, readIndex = 0, closed_w = 0,
                 h_elementSize = 8, waitingSenders = 1, waitingReceivers = 0\<rparr>,
       dataView = [], bufferSize = 0, elementSize = 8,
       serializer = default_serializer, deserializer = default_deserializer\<rparr>)"
  by (simp add: rendezvous_send_def channel_eval)

lemma rendezvous_receive_eq:
  "rendezvous_receive =
     (Polling,
      \<lparr>header = \<lparr>h_bufferSize = 0, writeIndex = 0, readIndex = 0, closed_w = 0,
                 h_elementSize = 8, waitingSenders = 1, waitingReceivers = 1\<rparr>,
       dataView = [], bufferSize = 0, elementSize = 8,
       serializer = default_serializer, deserializer = default_deserializer\<rparr>)"
  by (simp add: rendezvous_receive_def rendezvous_send_eq channel_eval)

lemma rendezvous_step:
  "step (JNumber 42) a (Polling, Polling, snd rendezvous_receive)
     = (Polling, Polling, snd rendezvous_receive)"
  by (cases a)
     (simp_all add: rendezvous_receive_eq send_resume_def receive_resume_def
        waitForSpace_def waitForData_def currentSize_def js_rem_def js_lt_def)

lemma rendezvous_run:
  "run (JNumber 42) schedule (Polling, Polling, snd rendezvous_receive)
     = (Polling, Polling, snd rendezvous_receive)"
  by (induction schedule) (simp_all add: rendezvous_step)

text \<open>
  Claim C4, evaluated on the code. On a channel of capacity 0 a sender sends 42 and
  parks, then a receiver calls \<open>receive\<close> and parks (\<open>waiting_receivers\<close> is 1). Under
  every schedule of their blocks both stay pending and nothing is committed:
  \<open>write_index\<close> and \<open>read_index\<close> stay 0, where the claim has the receiver return
  42 and both indices at 1.
\<close>

theorem rendezvous_never_completes:
  "run (JNumber 42) schedule
       (fst rendezvous_send, fst rendezvous_receive, snd rendezvous_receive)
     = (Polling, Polling, snd rendezvous_receive)
   \<and> writeIndex (header (snd rendezvous_receive)) = 0
   \<and> readIndex (header (snd rendezvous_receive)) = 0
   \<and> waitingReceivers (header (snd rendezvous_receive)) = 1"
  using rendezvous_run [of schedule]
  by (simp add: rendezvous_send_eq rendezvous_receive_eq)

lemma send_resume_capacity_0:
  "bufferSize ch = 0 \<Longrightarrow> p = Polling \<or> p = Woken \<Longrightarrow>
   (fst (send_resume p ch data_v) = Polling \<or> fst (send_resume p ch data_v) = Woken)
   \<and> bufferSize (snd (send_resume p ch data_v)) = 0
   \<and> writeIndex (header (snd (send_resume p ch data_v))) = writeIndex (header ch)"
  by (auto simp: send_resume_def tryWrite_def waitForSpace_def Let_def)

lemma send_await_capacity_0:
  "bufferSize ch = 0 \<Longrightarrow> p = Polling \<or> p = Woken \<Longrightarrow>
   (fst (send_await n p ch data_v) = Polling \<or> fst (send_await n p ch data_v) = Woken)
   \<and> writeIndex (header (snd (send_await n p ch data_v))) = writeIndex (header ch)"
proof (induction n arbitrary: p ch)
  case 0
  then show ?case by simp
next
  case (Suc n)
  obtain p' ch' where r: "send_resume p ch data_v = (p', ch')"
    by (cases "send_resume p ch data_v")
  with send_resume_capacity_0 [OF Suc.prems, of data_v]
  have "bufferSize ch' = 0" "p' = Polling \<or> p' = Woken"
    "writeIndex (header ch') = writeIndex (header ch)" by simp_all
  with Suc.IH [of ch' p'] r show ?case by simp
qed

text \<open>
  Claim C2, evaluated on the code. A send of 42 on a channel of capacity 0 parks; the
  channel is then closed. After any number of further blocks of the send its promise
  is still pending: it is never rejected with \<open>Cannot send to closed channel\<close>.
  \<open>write_index\<close> stays 0.
\<close>

theorem pending_send_survives_close:
  "fst rendezvous_send = Polling
   \<and> sint (closed_w (header rendezvous_closed)) = 1
   \<and> (fst (send_await n (fst rendezvous_send) rendezvous_closed (JNumber 42)) = Polling
      \<or> fst (send_await n (fst rendezvous_send) rendezvous_closed (JNumber 42)) = Woken)
   \<and> writeIndex (header (snd (send_await n (fst rendezvous_send) rendezvous_closed
                                   (JNumber 42)))) = 0"
proof -
  have c: "bufferSize rendezvous_closed = 0" "writeIndex (header rendezvous_closed) = 0"
    "sint (closed_w (header rendezvous_closed)) = 1"
    by (simp_all add: rendezvous_closed_def rendezvous_send_eq close_def)
  have p: "fst rendezvous_send = Polling" by (simp add: rendezvous_send_eq)
  from send_await_capacity_0 [of rendezvous_closed Polling n "JNumber 42"] c p
  show ?thesis by simp
qed

text \<open>
  Claim C1, evaluated on the code. On a channel of capacity 1, a first send fills the
  buffer and a second send, with nothing received in between, is fulfilled as well:
  afterwards \<open>write_index - read_index\<close> is 2, above the capacity.
\<close>

theorem send_on_full_buffer_commits:
  "fst latch_sent_a = Fulfilled () \<and> fst latch_sent_b = Fulfilled ()
   \<and> bufferSize (snd latch_sent_b) = 1
   \<and> sint (writeIndex (header (snd latch_sent_b)))
       - sint (readIndex (header (snd latch_sent_b))) = 2"
  by (simp add: latch_sent_a_eq latch_sent_b_eq)

text \<open>
  Claim C3 as stated fails. On an open, empty channel of capacity 2 with slots of 8
  bytes, the send of 12345, whose serialised form has 5 bytes (more than 8 - 4), is
  fulfilled and advances \<open>write_index\<close> from 0 to 1.
\<close>

theorem send_oversized_payload_commits:
  "default_serializer (JNumber 12345) = Some [49, 50, 51, 52, 53]
   \<and> elementSize (projr (makeChan 2 8)) = 8
   \<and> sint (closed_w (header (projr (makeChan 2 8)))) = 0
   \<and> writeIndex (header (projr (makeChan 2 8))) = 0
   \<and> fst spill_first = Fulfilled ()
   \<and> writeIndex (header (snd spill_first)) = 1"
  by (simp add: spill_first_eq) (simp add: channel_eval)

theorem send_commits_within_region_witness:
  "sint (closed_w (header (snd spill_first))) \<noteq> 1
   \<and> 0 < bufferSize (snd spill_first)
   \<and> serializer (snd spill_first) (JBigInt 7) = None
   \<and> serializer (snd spill_first) (JNumber 7) = Some [55]
   \<and> serializer (snd spill_first) (JNumber 12345) = Some [49, 50, 51, 52, 53]
   \<and> write_offset (snd spill_first) = 8
   \<and> length (dataView (snd spill_first)) = 16
   \<and> send (snd spill_first) (JBigInt 7) = (Rejected SerializerError, snd spill_first)
   \<and> fst (send (snd spill_first) (JNumber 7)) = Fulfilled ()
   \<and> writeIndex (header (snd (send (snd spill_first) (JNumber 7)))) = 2
   \<and> fst (send (snd spill_first) (JNumber 12345)) = Rejected RangeError
   \<and> header (snd (send (snd spill_first) (JNumber 12345))) = header (snd spill_first)"
proof -
  have h: "sint (closed_w (header (snd spill_first))) \<noteq> 1" "0 < bufferSize (snd spill_first)"
    by (simp_all add: spill_first_eq)
  have s0: "serializer (snd spill_first) (JBigInt 7) = None"
    by (simp add: spill_first_eq default_serializer_def)
  have s7: "serializer (snd spill_first) (JNumber 7) = Some [55]"
    by (simp add: spill_first_eq default_serializer_def TextEncoder_encode_def digits_eval)
  have s5: "serializer (snd spill_first) (JNumber 12345) = Some [49, 50, 51, 52, 53]"
    by (simp add: spill_first_eq default_serializer_def TextEncoder_encode_def digits_eval)
  have off: "write_offset (snd spill_first) = 8"
    by (simp add: spill_first_eq write_offset_def)
  have len: "length (dataView (snd spill_first)) = 16"
    by (simp add: spill_first_eq)
  from send_commits_within_region [OF h, of "JBigInt 7" "[]"] s0
  have z: "send (snd spill_first) (JBigInt 7) = (Rejected SerializerError, snd spill_first)"
    by simp
  from send_commits_within_region [OF h, of "JNumber 7" "[55]"] s7 off len
  have a: "fst (send (snd spill_first) (JNumber 7)) = Fulfilled ()
           \<and> writeIndex (header (snd (send (snd spill_first) (JNumber 7)))) = 2"
    by (simp add: spill_first_eq)
  from send_commits_within_region [OF h, of "JNumber 12345" "[49, 50, 51, 52, 53]"] s5 off len
  have b: "fst (send (snd spill_first) (JNumber 12345)) = Rejected RangeError
           \<and> header (snd (send (snd spill_first) (JNumber 12345))) = header (snd spill_first)"
    by simp
  from h s0 s7 s5 off len z a b show ?thesis by simp
qed





















text \<open>
  Claim C9, as amended. The constructor has no lower bound on the slot size. It fails,
  with a \<open>RangeError\<close>, exactly when the slot storage \<open>capacity * slot_size\<close> is
  negative or the region of \<open>28 + capacity * slot_size\<close> bytes exceeds what the
  platform allocates; otherwise it allocates that region, zero-filled, and initialises
  the header words to \<open>(capacity, 0, 0, 0, slot_size, 0, 0)\<close>, each value stored as a
  32-bit word (read back unchanged when it fits 32 signed bits).
\<close>

theorem constructor_allocates:
  "(SharedChannel_constructor max_byte_length c s ser deser = Inl RangeError
      \<longleftrightarrow> c * s < 0 \<or> max_byte_length < 28 + c * s)
   \<and> (0 \<le> c * s \<and> 28 + c * s \<le> max_byte_length \<longrightarrow>
        (\<exists>ch. SharedChannel_constructor max_byte_length c s ser deser = Inr ch
              \<and> byteLength ch = 28 + c * s
              \<and> header_words (header ch) = [word_of_int c, 0, 0, 0, word_of_int s, 0, 0]
              \<and> bufferSize ch = c \<and> elementSize ch = s
              \<and> dataView ch = replicate (nat (c * s)) 0))
   \<and> (- (2 ^ 31) \<le> c \<and> c < 2 ^ 31 \<longrightarrow> sint (word_of_int c :: 32 word) = c)"
proof -
  have "- (2 ^ 31) \<le> c \<and> c < 2 ^ 31 \<longrightarrow> sint (word_of_int c :: 32 word) = c"
  proof
    assume r: "- (2 ^ 31) \<le> c \<and> c < 2 ^ 31"
    have "sint (word_of_int c :: 32 word) = (c + 2 ^ 31) mod 2 ^ 32 - 2 ^ 31"
      by (simp add: int_word_sint)
    also have "(c + 2 ^ 31) mod 2 ^ 32 = c + 2 ^ 31"
      using r by (intro mod_pos_pos_trivial) simp_all
    finally show "sint (word_of_int c :: 32 word) = c" by simp
  qed
  then show ?thesis
    by (auto simp: SharedChannel_constructor_def HEADER_SIZE_def byteLength_def
        header_words_def Let_def)
qed

text \<open>
  Claim C9 as stated fails: the constructor succeeds with a slot size of 4.
\<close>

theorem constructor_accepts_small_slots:
  "\<not> isl (SharedChannel_constructor (2 ^ 32) 1 4 default_serializer default_deserializer)
   \<and> elementSize (projr (SharedChannel_constructor (2 ^ 32) 1 4
                            default_serializer default_deserializer)) = 4"
  by (simp add: SharedChannel_constructor_def HEADER_SIZE_def)

theorem constructor_allocates_witness:
  "(0::int) \<le> 3 * 1024 \<and> 28 + 3 * 1024 \<le> (2 ^ 32 :: int)
   \<and> byteLength (projr (makeChan 3 1024)) = 3100
   \<and> map sint (header_words (header (projr (makeChan 3 1024)))) = [3, 0, 0, 0, 1024, 0, 0]
   \<and> makeChan (- 1) 8 = Inl RangeError"
proof -
  from constructor_allocates [of "2 ^ 32" 3 1024 default_serializer default_deserializer]
  obtain ch where ch: "makeChan 3 1024 = Inr ch" "byteLength ch = 3100"
    "header_words (header ch) = [3, 0, 0, 0, 1024, 0, 0]"
    by (auto simp: makeChan_def)
  from constructor_allocates [of "2 ^ 32" "- 1" 8 default_serializer default_deserializer]
  have "makeChan (- 1) 8 = Inl RangeError" by (simp add: makeChan_def)
  with ch show ?thesis by simp
qed

section \<open>Properties of the WaitGroup\<close>

lemma promises_settle_rest: "promises (settle_rest hs wg evs) = promises wg"
  by (induction evs arbitrary: wg) (simp_all add: finally_callback_def)

lemma settle_rest_outside:
  "\<forall>ev \<in> set evs. handle_of ev \<notin> set hs \<Longrightarrow> settle_rest hs wg evs = wg"
  by (induction evs arbitrary: wg) (simp_all add: finally_callback_def)

lemma await_all_returned:
  "await_all hs vals wg evs = (Returned vs, wg') \<Longrightarrow>
   length vs = length hs
   \<and> (\<forall>i < length hs. vals (hs ! i) = Some (vs ! i) \<or> Resolve (hs ! i) (vs ! i) \<in> set evs)
   \<and> promises wg' = []"
proof (induction hs vals wg evs rule: await_all.induct)
  case (1 hs vals wg)
  then show ?case
    by (auto simp: all_resolved_def list_all_length split: if_splits)
next
  case (2 hs vals wg h v evs)
  show ?case
  proof (cases "all_resolved hs vals")
    case True
    with 2 show ?thesis
      by (auto simp: all_resolved_def list_all_length promises_settle_rest finally_callback_def)
  next
    case False
    show ?thesis
    proof (cases "h \<in> set hs")
      case True
      with 2 False have
        "await_all hs (vals(h \<mapsto> v)) (finally_callback hs wg h) evs = (Returned vs, wg')"
        by simp
      from "2.IH"(1) [OF False True this] show ?thesis
        by (auto split: if_splits)
    next
      case nin: False
      with 2 False have "await_all hs vals wg evs = (Returned vs, wg')" by simp
      from "2.IH"(2) [OF False nin this] show ?thesis by auto
    qed
  qed
next
  case (3 hs vals wg h e evs)
  show ?case
  proof (cases "all_resolved hs vals")
    case True
    with 3 show ?thesis
      by (auto simp: all_resolved_def list_all_length promises_settle_rest finally_callback_def)
  next
    case False
    show ?thesis
    proof (cases "h \<in> set hs")
      case True
      with 3 False show ?thesis by simp
    next
      case nin: False
      with 3 False have "await_all hs vals wg evs = (Returned vs, wg')" by simp
      from "3.IH" [OF False nin this] show ?thesis by auto
    qed
  qed
qed

lemma await_all_count:
  "await_all hs vals wg evs = (Returned vs, wg') \<Longrightarrow>
   distinct (map handle_of evs) \<Longrightarrow>
   (\<And>h. h \<in> set hs \<Longrightarrow> vals h \<noteq> None \<Longrightarrow> h \<notin> handle_of ` set evs) \<Longrightarrow>
   count wg' = 0"
proof (induction hs vals wg evs rule: await_all.induct)
  case (1 hs vals wg)
  then show ?case by (auto split: if_splits)
next
  case (2 hs vals wg h v evs)
  show ?case
  proof (cases "all_resolved hs vals")
    case True
    then have "\<forall>k \<in> set hs. vals k \<noteq> None" by (simp add: all_resolved_def list_all_iff)
    with "2.prems"(3) have "\<forall>ev \<in> set (Resolve h v # evs). handle_of ev \<notin> set hs"
      by blast
    from settle_rest_outside [OF this] "2.prems"(1) True show ?thesis by auto
  next
    case False
    show ?thesis
    proof (cases "h \<in> set hs")
      case True
      with "2.prems"(1) False have r:
        "await_all hs (vals(h \<mapsto> v)) (finally_callback hs wg h) evs = (Returned vs, wg')"
        by simp
      show ?thesis
      proof (rule "2.IH"(1) [OF False True r])
        show "distinct (map handle_of evs)" using "2.prems"(2) by simp
      next
        fix k assume k: "k \<in> set hs" "(vals(h \<mapsto> v)) k \<noteq> None"
        show "k \<notin> handle_of ` set evs"
        proof (cases "k = h")
          case True
          then show ?thesis using "2.prems"(2) by auto
        next
          case False
          with k "2.prems"(3) [of k] show ?thesis by auto
        qed
      qed
    next
      case nin: False
      with "2.prems"(1) False have r: "await_all hs vals wg evs = (Returned vs, wg')" by simp
      show ?thesis
      proof (rule "2.IH"(2) [OF False nin r])
        show "distinct (map handle_of evs)" using "2.prems"(2) by simp
      next
        fix k assume "k \<in> set hs" "vals k \<noteq> None"
        with "2.prems"(3) [of k] show "k \<notin> handle_of ` set evs" by auto
      qed
    qed
  qed
next
  case (3 hs vals wg h e evs)
  show ?case
  proof (cases "all_resolved hs vals")
    case True
    then have "\<forall>k \<in> set hs. vals k \<noteq> None" by (simp add: all_resolved_def list_all_iff)
    with "3.prems"(3) have "\<forall>ev \<in> set (Reject h e # evs). handle_of ev \<notin> set hs"
      by blast
    from settle_rest_outside [OF this] "3.prems"(1) True show ?thesis by auto
  next
    case False
    show ?thesis
    proof (cases "h \<in> set hs")
      case True
      with "3.prems"(1) False show ?thesis by simp
    next
      case nin: False
      with "3.prems"(1) False have r: "await_all hs vals wg evs = (Returned vs, wg')" by simp
      show ?thesis
      proof (rule "3.IH" [OF False nin r])
        show "distinct (map handle_of evs)" using "3.prems"(2) by simp
      next
        fix k assume "k \<in> set hs" "vals k \<noteq> None"
        with "3.prems"(3) [of k] show "k \<notin> handle_of ` set evs" by auto
      qed
    qed
  qed
qed

lemma first_rejection_mem:
  "first_rejection hs evs = Some e \<Longrightarrow> \<exists>h \<in> set hs. Reject h e \<in> set evs"
  by (induction hs evs rule: first_rejection.induct) (auto split: if_splits)

lemma first_rejection_None:
  "first_rejection hs evs = None \<longleftrightarrow> (\<forall>h e. Reject h e \<in> set evs \<longrightarrow> h \<notin> set hs)"
  by (induction hs evs rule: first_rejection.induct) auto

lemma await_all_failed:
  "first_rejection hs evs = Some e \<Longrightarrow>
   (\<And>h e'. h \<in> set hs \<Longrightarrow> Reject h e' \<in> set evs \<Longrightarrow>
        vals h = None \<and> (\<forall>v. Resolve h v \<notin> set evs)) \<Longrightarrow>
   \<exists>wg'. await_all hs vals wg evs = (Failed e, wg') \<and> promises wg' = promises wg"
proof (induction hs vals wg evs rule: await_all.induct)
  case (1 hs vals wg)
  then show ?case by simp
next
  case (2 hs vals wg h v evs)
  from "2.prems"(1) have fr: "first_rejection hs evs = Some e" by simp
  then obtain h' where h': "h' \<in> set hs" "Reject h' e \<in> set evs"
    using first_rejection_mem by blast
  with "2.prems"(2) [of h' e] have "vals h' = None" by simp
  with h' have nr: "\<not> all_resolved hs vals"
    by (auto simp: all_resolved_def list_all_iff)
  show ?case
  proof (cases "h \<in> set hs")
    case True
    have "\<exists>wg'. await_all hs (vals(h \<mapsto> v)) (finally_callback hs wg h) evs = (Failed e, wg')
            \<and> promises wg' = promises (finally_callback hs wg h)"
    proof (rule "2.IH"(1) [OF nr True fr])
      fix k e' assume k: "k \<in> set hs" "Reject k e' \<in> set evs"
      with "2.prems"(2) [of k e'] have a: "vals k = None"
        and b: "\<forall>v'. Resolve k v' \<notin> set (Resolve h v # evs)"
        by simp_all
      from b have "Resolve k v \<notin> set (Resolve h v # evs)" by blast
      then have "k \<noteq> h" by auto
      moreover from b have "\<forall>v'. Resolve k v' \<notin> set evs" by auto
      ultimately show "(vals(h \<mapsto> v)) k = None \<and> (\<forall>v. Resolve k v \<notin> set evs)"
        using a by simp
    qed
    then show ?thesis using nr True by (simp add: finally_callback_def)
  next
    case False
    have "\<exists>wg'. await_all hs vals wg evs = (Failed e, wg') \<and> promises wg' = promises wg"
    proof (rule "2.IH"(2) [OF nr False fr])
      fix k e' assume k: "k \<in> set hs" "Reject k e' \<in> set evs"
      with "2.prems"(2) [of k e'] show "vals k = None \<and> (\<forall>v. Resolve k v \<notin> set evs)" by simp
    qed
    then show ?thesis using nr False by simp
  qed
next
  case (3 hs vals wg h e0 evs)
  show ?case
  proof (cases "h \<in> set hs")
    case True
    with "3.prems"(2) [of h e0] have "vals h = None" by simp
    with True have nr: "\<not> all_resolved hs vals"
      by (auto simp: all_resolved_def list_all_iff)
    from "3.prems"(1) True have "e0 = e" by simp
    with nr True show ?thesis by (simp add: promises_settle_rest finally_callback_def)
  next
    case False
    from "3.prems"(1) False have fr: "first_rejection hs evs = Some e" by simp
    then obtain h' where h': "h' \<in> set hs" "Reject h' e \<in> set evs"
      using first_rejection_mem by blast
    with "3.prems"(2) [of h' e] have "vals h' = None" by simp
    with h' have nr: "\<not> all_resolved hs vals"
      by (auto simp: all_resolved_def list_all_iff)
    have "\<exists>wg'. await_all hs vals wg evs = (Failed e, wg') \<and> promises wg' = promises wg"
    proof (rule "3.IH" [OF nr False fr])
      fix k e' assume k: "k \<in> set hs" "Reject k e' \<in> set evs"
      with "3.prems"(2) [of k e'] show "vals k = None \<and> (\<forall>v. Resolve k v \<notin> set evs)" by simp
    qed
    then show ?thesis using nr False by simp
  qed
qed

lemma await_all_resolves:
  "first_rejection hs evs = None \<Longrightarrow>
   (\<And>h. h \<in> set hs \<Longrightarrow> vals h \<noteq> None \<or> (\<exists>v. Resolve h v \<in> set evs)) \<Longrightarrow>
   \<exists>vs wg'. await_all hs vals wg evs = (Returned vs, wg')"
proof (induction hs vals wg evs rule: await_all.induct)
  case (1 hs vals wg)
  then show ?case by (auto simp: all_resolved_def list_all_iff)
next
  case (2 hs vals wg h v evs)
  show ?case
  proof (cases "all_resolved hs vals")
    case True
    then show ?thesis by simp
  next
    case nr: False
    from "2.prems"(1) have fr: "first_rejection hs evs = None" by simp
    show ?thesis
    proof (cases "h \<in> set hs")
      case True
      have "\<exists>vs wg'. await_all hs (vals(h \<mapsto> v)) (finally_callback hs wg h) evs
               = (Returned vs, wg')"
      proof (rule "2.IH"(1) [OF nr True fr])
        fix k assume "k \<in> set hs"
        with "2.prems"(2) [of k]
        show "(vals(h \<mapsto> v)) k \<noteq> None \<or> (\<exists>v. Resolve k v \<in> set evs)" by auto
      qed
      then show ?thesis using nr True by simp
    next
      case False
      have "\<exists>vs wg'. await_all hs vals wg evs = (Returned vs, wg')"
      proof (rule "2.IH"(2) [OF nr False fr])
        fix k assume "k \<in> set hs"
        with "2.prems"(2) [of k] False
        show "vals k \<noteq> None \<or> (\<exists>v. Resolve k v \<in> set evs)" by auto
      qed
      then show ?thesis using nr False by simp
    qed
  qed
next
  case (3 hs vals wg h e evs)
  show ?case
  proof (cases "all_resolved hs vals")
    case True
    then show ?thesis by simp
  next
    case nr: False
    from "3.prems"(1) have nin: "h \<notin> set hs" by (auto split: if_splits)
    with "3.prems"(1) have fr: "first_rejection hs evs = None" by simp
    have "\<exists>vs wg'. await_all hs vals wg evs = (Returned vs, wg')"
    proof (rule "3.IH" [OF nr nin fr])
      fix k assume "k \<in> set hs"
      with "3.prems"(2) [of k]
      show "vals k \<noteq> None \<or> (\<exists>v. Resolve k v \<in> set evs)" by auto
    qed
    then show ?thesis using nr nin by simp
  qed
qed

lemma settles_once:
  "distinct (map handle_of evs) \<Longrightarrow> Reject h e \<in> set evs \<Longrightarrow> Resolve h v \<notin> set evs"
proof
  assume d: "distinct (map handle_of evs)" and r: "Reject h e \<in> set evs"
    and s: "Resolve h v \<in> set evs"
  have "inj_on handle_of (set evs)" using d by (simp add: distinct_map)
  then have "Reject h e = Resolve h v"
    using r s by (intro inj_onD [of handle_of "set evs"]) simp_all
  then show False by simp
qed

text \<open>
  What \<open>wait\<close> does when every handle settles at most once: it resolves iff every
  handle of the group resolved, and then returns the results in the order the handles
  were added and leaves the group empty; if a handle of the group rejects, it rejects
  with the reason of the first rejection observed, and the group keeps its handles.
\<close>

lemma wait_settles:
  assumes once: "distinct (map handle_of evs)"
  shows "((\<exists>vs wg'. wait wg evs = (Returned vs, wg'))
            \<longleftrightarrow> (\<forall>h \<in> set (promises wg). \<exists>v. Resolve h v \<in> set evs))
       \<and> (wait wg evs = (Returned vs, wg') \<longrightarrow>
            length vs = length (promises wg)
            \<and> (\<forall>i < length vs. Resolve (promises wg ! i) (vs ! i) \<in> set evs)
            \<and> count wg' = 0 \<and> promises wg' = [])
       \<and> ((\<exists>h \<in> set (promises wg). \<exists>e. Reject h e \<in> set evs) \<longrightarrow>
            (\<exists>e wg'. first_rejection (promises wg) evs = Some e
                     \<and> wait wg evs = (Failed e, wg') \<and> promises wg' = promises wg))"
proof (intro conjI impI iffI)
  assume "\<exists>vs wg'. wait wg evs = (Returned vs, wg')"
  then obtain vs wg' where "await_all (promises wg) Map.empty wg evs = (Returned vs, wg')"
    by (auto simp: wait_def)
  from await_all_returned [OF this]
  have r: "\<forall>i < length (promises wg). Resolve (promises wg ! i) (vs ! i) \<in> set evs" by simp
  show "\<forall>h \<in> set (promises wg). \<exists>v. Resolve h v \<in> set evs"
  proof
    fix h assume "h \<in> set (promises wg)"
    then obtain i where "i < length (promises wg)" "promises wg ! i = h"
      by (auto simp: in_set_conv_nth)
    with r show "\<exists>v. Resolve h v \<in> set evs" by blast
  qed
next
  assume all: "\<forall>h \<in> set (promises wg). \<exists>v. Resolve h v \<in> set evs"
  have "first_rejection (promises wg) evs = None"
    unfolding first_rejection_None using all settles_once [OF once] by blast
  from await_all_resolves [OF this, of Map.empty wg] all
  show "\<exists>vs wg'. wait wg evs = (Returned vs, wg')" by (auto simp: wait_def)
next
  assume "wait wg evs = (Returned vs, wg')"
  then have a: "await_all (promises wg) Map.empty wg evs = (Returned vs, wg')"
    by (simp add: wait_def)
  from await_all_returned [OF a]
  show "length vs = length (promises wg)"
    "\<forall>i < length vs. Resolve (promises wg ! i) (vs ! i) \<in> set evs"
    "promises wg' = []"
    by simp_all
  from await_all_count [OF a once] show "count wg' = 0" by simp
next
  assume "\<exists>h \<in> set (promises wg). \<exists>e. Reject h e \<in> set evs"
  then have "first_rejection (promises wg) evs \<noteq> None"
    unfolding first_rejection_None by blast
  then obtain e where fr: "first_rejection (promises wg) evs = Some e" by auto
  have "\<exists>wg'. await_all (promises wg) Map.empty wg evs = (Failed e, wg')
              \<and> promises wg' = promises wg"
    using fr
  proof (rule await_all_failed)
    fix h e' assume "h \<in> set (promises wg)" "Reject h e' \<in> set evs"
    then show "Map.empty h = None \<and> (\<forall>v. Resolve h v \<notin> set evs)"
      using settles_once [OF once] by simp
  qed
  with fr show "\<exists>e wg'. first_rejection (promises wg) evs = Some e
                     \<and> wait wg evs = (Failed e, wg') \<and> promises wg' = promises wg"
    by (auto simp: wait_def)
qed

text \<open>
  Claim C7, evaluated on the code. Two handles are added; the second rejects with
  \<open>boom\<close> before the first resolves with \<open>ok\<close>. \<open>wait()\<close> rejects with \<open>boom\<close>, and the
  group is not empty afterwards: both handles are still in \<open>promises\<close>, where the
  claim has the group empty and reusable. When both handles resolve, \<open>wait()\<close> returns
  the results in the order the handles were added and does empty the group.
\<close>

theorem wait_failure_keeps_handles:
  "wait (add (add WaitGroup_new 0) 1) [Reject 1 ''boom'', Resolve 0 ''ok'']
     = (Failed ''boom'', \<lparr>count = 0, promises = [0, 1]\<rparr>)
   \<and> wait (add (add WaitGroup_new 0) 1) [Resolve 1 ''second'', Resolve 0 ''first'']
     = (Returned [''first'', ''second''], \<lparr>count = 0, promises = []\<rparr>)"
  by (simp add: wait_def add_def WaitGroup_new_def all_resolved_def finally_callback_def)

section \<open>Properties of the worker pool\<close>

lemma pool_busy_eq:
  "pool_busy =
     \<lparr>workers = [0], availableWorkers = [], taskQueue = [''t2''], maxWorkers = 1,
      messageHandlers = [(0, ''t1'')], handles = Map.empty, created = 1\<rparr>"
  by (simp add: pool_busy_def execute_def processQueue_def WorkerPool_constructor_def
      createWorker_def Let_def)

lemma on_exit_keeps:
  "taskQueue (on_exit p w) = taskQueue p \<and> handles (on_exit p w) = handles p"
  by (simp add: on_exit_def removeWorker_def createWorker_def Let_def)

lemma exits_keep:
  "taskQueue (foldl on_exit p ws) = taskQueue p \<and> handles (foldl on_exit p ws) = handles p"
  by (induction ws arbitrary: p) (simp_all add: on_exit_keeps)

lemma on_exit_idle:
  "taskQueue p = [] \<Longrightarrow>
   on_exit p w = p\<lparr>workers := remove1 w (workers p),
                    availableWorkers := remove1 w (availableWorkers p)\<rparr>"
  by (simp add: on_exit_def removeWorker_def Let_def)

lemma exits_idle:
  "taskQueue p = [] \<Longrightarrow> distinct (workers p) \<Longrightarrow> distinct (availableWorkers p) \<Longrightarrow>
   set (workers p) \<subseteq> set ws \<Longrightarrow> set (availableWorkers p) \<subseteq> set ws \<Longrightarrow>
   workers (foldl on_exit p ws) = [] \<and> availableWorkers (foldl on_exit p ws) = []"
proof (induction ws arbitrary: p)
  case Nil
  then show ?case by simp
next
  case (Cons w ws)
  let ?p = "p\<lparr>workers := remove1 w (workers p),
               availableWorkers := remove1 w (availableWorkers p)\<rparr>"
  have e: "on_exit p w = ?p" using Cons.prems(1) by (rule on_exit_idle)
  have "taskQueue ?p = []" using Cons.prems(1) by simp
  moreover have "distinct (workers ?p)" "distinct (availableWorkers ?p)"
    using Cons.prems by simp_all
  moreover have "set (workers ?p) \<subseteq> set ws" "set (availableWorkers ?p) \<subseteq> set ws"
    using Cons.prems by auto
  ultimately show ?case using Cons.IH [of ?p] by (simp add: e)
qed

text \<open>
  Claim C8, as amended. \<open>terminate()\<close> asks every worker to terminate and changes
  nothing in the pool itself; the workers' \<open>exit\<close> events remove them from the worker
  sets. Neither touches the pending queue or settles a completion handle: the queued
  tasks stay queued, their promises pending. When no task is queued the exits leave
  both worker sets empty.
\<close>

theorem teardown_leaves_queue:
  "taskQueue (teardown p) = taskQueue p \<and> handles (teardown p) = handles p
   \<and> snd (terminate p) = p
   \<and> (taskQueue p = [] \<and> distinct (workers p) \<and> distinct (availableWorkers p)
        \<and> set (availableWorkers p) \<subseteq> set (workers p)
      \<longrightarrow> workers (teardown p) = [] \<and> availableWorkers (teardown p) = [])"
  using exits_keep [of p "workers p"] exits_idle [of p "workers p"]
  by (auto simp: teardown_def terminate_def)


text \<open>
  Claim C8 as stated fails. In a pool of one worker that is busy with \<open>t1\<close> while
  \<open>t2\<close> is queued, after \<open>terminate()\<close> and the worker's exit the task \<open>t2\<close> is
  still queued, its completion handle is unsettled, and the worker set is not empty.
\<close>

theorem teardown_strands_pending_task:
  "taskQueue pool_busy = [''t2'']
   \<and> taskQueue (teardown pool_busy) = [''t2'']
   \<and> handles (teardown pool_busy) ''t2'' = None
   \<and> workers (teardown pool_busy) = [1]"
  by (simp add: pool_busy_eq teardown_def terminate_def on_exit_def removeWorker_def
      createWorker_def Let_def)

theorem teardown_leaves_queue_witness:
  "taskQueue (WorkerPool_constructor 2) = []
   \<and> workers (WorkerPool_constructor 2) = [0, 1]
   \<and> availableWorkers (WorkerPool_constructor 2) = [0, 1]
   \<and> workers (teardown (WorkerPool_constructor 2)) = []
   \<and> availableWorkers (teardown (WorkerPool_constructor 2)) = []
   \<and> taskQueue (teardown (WorkerPool_constructor 2)) = []"
proof -
  have p: "WorkerPool_constructor 2 =
     \<lparr>workers = [0, 1], availableWorkers = [0, 1], taskQueue = [], maxWorkers = 2,
      messageHandlers = [], handles = Map.empty, created = 2\<rparr>"
    by (simp add: WorkerPool_constructor_def createWorker_def numeral_2_eq_2)
  have h: "taskQueue (WorkerPool_constructor 2) = []"
    "distinct (workers (WorkerPool_constructor 2))"
    "distinct (availableWorkers (WorkerPool_constructor 2))"
    "set (availableWorkers (WorkerPool_constructor 2)) \<subseteq> set (workers (WorkerPool_constructor 2))"
    by (simp_all add: p)
  from teardown_leaves_queue [of "WorkerPool_constructor 2"] h
  have "workers (teardown (WorkerPool_constructor 2)) = []
        \<and> availableWorkers (teardown (WorkerPool_constructor 2)) = []
        \<and> taskQueue (teardown (WorkerPool_constructor 2)) = []"
    by simp
  then show ?thesis by (simp add: p)
qed

end
